theory Spec2Isabelle
  imports Complex_Main "HOL-Library.Char_ord" "HOL-Library.List_Lexorder"
begin

section \<open>Data model of the food store\<close>

text \<open>
  The store module (the zustand store \<open>useFoodStore\<close> with its module-level cache helpers)
  is embedded as pure functions on an explicit state. JavaScript numbers are taken as exact
  reals; identifiers are integers; optional string fields are \<open>string option\<close>, where
  \<open>None\<close> stands for both \<open>undefined\<close> and \<open>null\<close>.

  Each action runs to completion: the interleaving of two pending promises is not part of
  the model. Reads and writes of the local storage always succeed, and the bound of SQLite
  rowids is ignored. A rejected promise of \<open>api\<close> is an \<open>Inl\<close> answer; what an action throws
  to its caller is its \<open>outcome\<close>.
\<close>

record MacroSummary =
  date :: string
  calories :: real
  protein :: real
  carbs :: real
  fats :: real
  calorie_goal :: real
  protein_goal :: real
  carb_goal :: real
  fat_goal :: real

text \<open>\<open>Omit<FoodEntry, 'id' | 'created_at'>\<close>, the argument of \<open>addEntry\<close> and \<open>cacheEntry\<close>.\<close>

record EntryDraft =
  food_name :: string
  calories :: real
  protein :: real
  carbs :: real
  fats :: real
  serving_size :: "string option"
  image_url :: "string option"
  entry_date :: string

text \<open>\<open>interface FoodEntry\<close>; the field \<open>id\<close> is named \<open>entry_id\<close> here.\<close>

record FoodEntry = EntryDraft +
  entry_id :: int
  created_at :: string

text \<open>
  One row of the SQLite table \<open>food_entries_cache\<close>: the columns of a food entry and the
  column \<open>synced INTEGER DEFAULT 0\<close>.
\<close>

record cache_row =
  row_entry :: FoodEntry
  synced :: int

definition row_id :: "cache_row \<Rightarrow> int" where
  "row_id r = entry_id (row_entry r)"

text \<open>
  The local cache, by platform: on web the JSON array under the localStorage key
  \<open>food_entries_cache\<close> (no sync flag); on mobile the SQLite table, kept in rowid order,
  with the counter of its \<open>AUTOINCREMENT\<close> key; \<open>NoCache\<close> when the platform is not web and
  \<open>db\<close> is \<open>null\<close>.
\<close>

datatype cache =
  WebCache "FoodEntry list"
| SqliteCache "cache_row list" int
| NoCache

datatype error = NetworkError | ValidationError | ServerError | NotFoundError

datatype outcome = Returned | Raised error

text \<open>The requests the store sends through \<open>api\<close>.\<close>

datatype request =
  GetEntries string
| GetSummary string
| PostEntry EntryDraft
| DeleteEntry int

text \<open>
  Everything outside the module: the four remote endpoints reached through \<open>api\<close>, each
  answering from the requests made so far and the request at hand, with \<open>Inl\<close> for a
  rejected promise; and \<open>getTime\<close> for \<open>new Date(s).getTime()\<close>.
\<close>

record env =
  api_get_entries :: "request list \<Rightarrow> string \<Rightarrow> error + FoodEntry list"
  api_get_summary :: "request list \<Rightarrow> string \<Rightarrow> error + MacroSummary"
  api_post_entry :: "request list \<Rightarrow> EntryDraft \<Rightarrow> error + FoodEntry"
  api_delete_entry :: "request list \<Rightarrow> int \<Rightarrow> error + unit"
  getTime :: "string \<Rightarrow> int"

text \<open>
  The state: the four data fields of \<open>FoodState\<close>, the local cache, and the list of the
  requests sent to the remote service so far.
\<close>

record world =
  entries :: "FoodEntry list"
  summary :: "MacroSummary option"
  isLoading :: bool
  selectedDate :: string
  cache :: cache
  calls :: "request list"

section \<open>Helpers for local caching\<close>

text \<open>\<open>Array.prototype.findIndex\<close>: the first index whose element satisfies \<open>P\<close>, or \<open>-1\<close>.\<close>

fun findIndex :: "('a \<Rightarrow> bool) \<Rightarrow> 'a list \<Rightarrow> int" where
  "findIndex P [] = - 1"
| "findIndex P (x # xs) =
     (if P x then 0 else (let i = findIndex P xs in if i < 0 then - 1 else i + 1))"

text \<open>\<open>s || null\<close> on an optional string: the empty string is falsy.\<close>

definition or_null :: "string option \<Rightarrow> string option" where
  "or_null s = (case s of None \<Rightarrow> None | Some t \<Rightarrow> if t = [] then None else Some t)"

text \<open>The column values of an entry as the two SQL statements bind them.\<close>

definition sql_values :: "FoodEntry \<Rightarrow> FoodEntry" where
  "sql_values e = e\<lparr>serving_size := or_null (serving_size e), image_url := or_null (image_url e)\<rparr>"

text \<open>
  Writing a row under its primary key: a row with the same \<open>id\<close> is replaced, and the table
  stays in rowid order.
\<close>

definition table_put :: "cache_row \<Rightarrow> cache_row list \<Rightarrow> cache_row list" where
  "table_put r t = insort_key row_id r (filter (\<lambda>x. row_id x \<noteq> row_id r) t)"

text \<open>The rowid an \<open>AUTOINCREMENT\<close> key gives to an \<open>INSERT\<close> without \<open>id\<close>.\<close>

definition next_rowid :: "cache_row list \<Rightarrow> int \<Rightarrow> int" where
  "next_rowid t seq = max seq (fold max (map row_id t) 0) + 1"

text \<open>
  A stable sort, largest key first: \<open>sort((a, b) => key(b) - key(a))\<close> and \<open>ORDER BY key
  DESC\<close> (rows with equal keys are taken in table order).
\<close>

definition sort_desc :: "('a \<Rightarrow> 'k::linorder) \<Rightarrow> 'a list \<Rightarrow> 'a list" where
  "sort_desc key xs = rev (sort_key key (rev xs))"

fun cacheEntryLocally :: "FoodEntry \<Rightarrow> cache \<Rightarrow> cache" where
  "cacheEntryLocally entry (WebCache es) =
     (let index = findIndex (\<lambda>e. entry_id e = entry_id entry) es
      in if index \<ge> 0 then WebCache (es[nat index := entry]) else WebCache (es @ [entry]))"
| "cacheEntryLocally entry (SqliteCache t seq) =
     SqliteCache (table_put \<lparr>row_entry = sql_values entry, synced = 1\<rparr> t)
       (max seq (entry_id entry))"
| "cacheEntryLocally entry NoCache = NoCache"

fun getCachedEntries :: "(string \<Rightarrow> int) \<Rightarrow> string \<Rightarrow> cache \<Rightarrow> FoodEntry list" where
  "getCachedEntries gt d (WebCache es) =
     sort_desc (\<lambda>e. gt (created_at e)) (filter (\<lambda>e. entry_date e = d) es)"
| "getCachedEntries gt d (SqliteCache t seq) =
     map row_entry
       (sort_desc (\<lambda>r. created_at (row_entry r)) (filter (\<lambda>r. entry_date (row_entry r) = d) t))"
| "getCachedEntries gt d NoCache = []"

section \<open>The actions of the store\<close>

text \<open>\<open>date || get().selectedDate\<close>\<close>

definition targetDate :: "string option \<Rightarrow> world \<Rightarrow> string" where
  "targetDate d w =
     (case d of None \<Rightarrow> selectedDate w | Some s \<Rightarrow> if s = [] then selectedDate w else s)"

definition fetchEntries :: "env \<Rightarrow> string option \<Rightarrow> world \<Rightarrow> outcome \<times> world" where
  "fetchEntries E d w =
     (let target = targetDate d w;
          w1 = w\<lparr>isLoading := True, calls := calls w @ [GetEntries target]\<rparr>
      in case api_get_entries E (calls w) target of
           Inr data \<Rightarrow>
             (Returned, w1\<lparr>entries := data, isLoading := False,
                           cache := fold cacheEntryLocally data (cache w1)\<rparr>)
         | Inl err \<Rightarrow>
             (Returned, w1\<lparr>entries := getCachedEntries (getTime E) target (cache w1),
                           isLoading := False\<rparr>))"

text \<open>The \<open>reduce\<close> of the fallback: calories, protein, carbs, fats, summed from the left.\<close>

definition totals :: "FoodEntry list \<Rightarrow> real \<times> real \<times> real \<times> real" where
  "totals es =
     foldl (\<lambda>(c, p, cb, f) entry. (c + calories entry, p + protein entry, cb + carbs entry, f + fats entry))
       (0, 0, 0, 0) es"

definition fetchSummary :: "env \<Rightarrow> string option \<Rightarrow> world \<Rightarrow> outcome \<times> world" where
  "fetchSummary E d w =
     (let target = targetDate d w;
          w1 = w\<lparr>calls := calls w @ [GetSummary target]\<rparr>
      in case api_get_summary E (calls w) target of
           Inr data \<Rightarrow> (Returned, w1\<lparr>summary := Some data\<rparr>)
         | Inl err \<Rightarrow>
             (case totals (entries w1) of (c, p, cb, f) \<Rightarrow>
               (Returned, w1\<lparr>summary := Some
                  \<lparr>date = target, MacroSummary.calories = c, MacroSummary.protein = p,
                   MacroSummary.carbs = cb, MacroSummary.fats = f,
                   calorie_goal = 2000, protein_goal = 150, carb_goal = 200, fat_goal = 65\<rparr>\<rparr>)))"

text \<open>
  \<open>cacheEntry\<close>, with the two clock reads as arguments: \<open>now\<close> for
  \<open>new Date().toISOString()\<close> and \<open>now_ms\<close> for \<open>Date.now()\<close>.
\<close>

definition entryToCache :: "string \<Rightarrow> int \<Rightarrow> EntryDraft \<Rightarrow> FoodEntry" where
  "entryToCache now now_ms entry =
     \<lparr>food_name = food_name entry, calories = calories entry, protein = protein entry,
      carbs = carbs entry, fats = fats entry, serving_size = serving_size entry,
      image_url = image_url entry, entry_date = entry_date entry,
      entry_id = now_ms, created_at = now\<rparr>"

text \<open>The \<open>INSERT\<close> of \<open>cacheEntry\<close> names no \<open>id\<close>: the row gets the next rowid.\<close>

definition cacheEntry :: "string \<Rightarrow> int \<Rightarrow> EntryDraft \<Rightarrow> world \<Rightarrow> world" where
  "cacheEntry now now_ms entry w =
     (case cache w of
        WebCache es \<Rightarrow> w\<lparr>cache := WebCache (es @ [entryToCache now now_ms entry])\<rparr>
      | SqliteCache t seq \<Rightarrow>
          (let rowid = next_rowid t seq
           in w\<lparr>cache := SqliteCache
                  (table_put \<lparr>row_entry = sql_values (entryToCache now rowid entry), synced = 0\<rparr> t)
                  rowid\<rparr>)
      | NoCache \<Rightarrow> w)"

definition addEntry :: "env \<Rightarrow> string \<Rightarrow> int \<Rightarrow> EntryDraft \<Rightarrow> world \<Rightarrow> outcome \<times> world" where
  "addEntry E now now_ms entry w =
     (let w1 = w\<lparr>calls := calls w @ [PostEntry entry]\<rparr>
      in case api_post_entry E (calls w) entry of
           Inr newEntry \<Rightarrow>
             (case fetchSummary E None (w1\<lparr>entries := newEntry # entries w1\<rparr>) of
                (Returned, w2) \<Rightarrow> (Returned, w2\<lparr>cache := cacheEntryLocally newEntry (cache w2)\<rparr>)
              | (Raised err, w2) \<Rightarrow> (Raised err, cacheEntry now now_ms entry w2))
         | Inl err \<Rightarrow> (Raised err, cacheEntry now now_ms entry w1))"

definition deleteEntry :: "env \<Rightarrow> int \<Rightarrow> world \<Rightarrow> outcome \<times> world" where
  "deleteEntry E i w =
     (let w1 = w\<lparr>calls := calls w @ [DeleteEntry i]\<rparr>
      in case api_delete_entry E (calls w) i of
           Inr u \<Rightarrow> fetchSummary E None (w1\<lparr>entries := filter (\<lambda>entry. entry_id entry \<noteq> i) (entries w1)\<rparr>)
         | Inl err \<Rightarrow> (Raised err, w1))"

text \<open>The body posted for a cached entry: its content without \<open>id\<close> and \<open>created_at\<close>.\<close>

definition draft_of :: "FoodEntry \<Rightarrow> EntryDraft" where
  "draft_of entry =
     \<lparr>food_name = food_name entry, calories = calories entry, protein = protein entry,
      carbs = carbs entry, fats = fats entry, serving_size = serving_size entry,
      image_url = image_url entry, entry_date = entry_date entry\<rparr>"

text \<open>The list \<open>unsynced\<close> that \<open>syncOfflineEntries\<close> selects before its loop.\<close>

fun unsynced :: "cache \<Rightarrow> FoodEntry list" where
  "unsynced (WebCache es) = filter (\<lambda>e. entry_id e = 0 \<or> entry_id e < 1000000000000) es"
| "unsynced (SqliteCache t seq) = map row_entry (filter (\<lambda>r. synced r = 0) t)"
| "unsynced NoCache = []"

text \<open>What one iteration of the loop does to the cache when the post has succeeded.\<close>

fun replace_synced :: "FoodEntry \<Rightarrow> FoodEntry \<Rightarrow> cache \<Rightarrow> cache" where
  "replace_synced entry data (WebCache es) =
     (let index = findIndex (\<lambda>e. entry_id e = entry_id entry) es
      in WebCache (if index \<ge> 0 then es[nat index := data] else es))"
| "replace_synced entry data (SqliteCache t seq) =
     SqliteCache (map (\<lambda>r. if row_id r = entry_id entry then r\<lparr>synced := 1\<rparr> else r) t) seq"
| "replace_synced entry data NoCache = NoCache"

text \<open>One iteration of the loop: the inner \<open>try\<close> and its \<open>catch\<close>, which only logs.\<close>

definition sync_entry :: "env \<Rightarrow> FoodEntry \<Rightarrow> world \<Rightarrow> world" where
  "sync_entry E entry w =
     (let w1 = w\<lparr>calls := calls w @ [PostEntry (draft_of entry)]\<rparr>
      in case api_post_entry E (calls w) (draft_of entry) of
           Inr data \<Rightarrow> w1\<lparr>cache := replace_synced entry data (cache w1)\<rparr>
         | Inl err \<Rightarrow> w1)"

definition sync_loop :: "env \<Rightarrow> FoodEntry list \<Rightarrow> world \<Rightarrow> world" where
  "sync_loop E es w = fold (sync_entry E) es w"

definition syncOfflineEntries :: "env \<Rightarrow> world \<Rightarrow> outcome \<times> world" where
  "syncOfflineEntries E w =
     (case fetchEntries E None (sync_loop E (unsynced (cache w)) w) of
        (Returned, w2) \<Rightarrow> (Returned, snd (fetchSummary E None w2))
      | (Raised err, w2) \<Rightarrow> (Returned, w2))"

section \<open>Views of the state used in the statements\<close>

text \<open>Every entry the cache holds, whatever its date, in storage order.\<close>

fun cache_entries :: "cache \<Rightarrow> FoodEntry list" where
  "cache_entries (WebCache es) = es"
| "cache_entries (SqliteCache t seq) = map row_entry t"
| "cache_entries NoCache = []"

text \<open>
  The entries of one run of the loop whose post succeeds, in the order of the loop: \<open>l\<close> is
  the list of requests made before the loop reaches the first entry.
\<close>

fun posted_ok :: "env \<Rightarrow> request list \<Rightarrow> FoodEntry list \<Rightarrow> FoodEntry list" where
  "posted_ok E l [] = []"
| "posted_ok E l (e # es) =
     (case api_post_entry E l (draft_of e) of
        Inr data \<Rightarrow> e # posted_ok E (l @ [PostEntry (draft_of e)]) es
      | Inl err \<Rightarrow> posted_ok E (l @ [PostEntry (draft_of e)]) es)"

text \<open>The row \<open>INSERT OR REPLACE ... VALUES (..., 1)\<close> writes for an entry.\<close>

definition confirmed_row :: "FoodEntry \<Rightarrow> cache_row" where
  "confirmed_row e = \<lparr>row_entry = sql_values e, synced = 1\<rparr>"

text \<open>
  The primary key of the mobile table: no two rows share an identifier. (The web array has
  no such constraint.)
\<close>

definition primary_key :: "cache \<Rightarrow> bool" where
  "primary_key c = (case c of SqliteCache t seq \<Rightarrow> distinct (map row_id t) | _ \<Rightarrow> True)"

section \<open>Example data\<close>

definition day :: string where
  "day = ''2024-05-01''"

definition apple :: EntryDraft where
  "apple = \<lparr>food_name = ''Apple'', calories = 300, protein = 1, carbs = 70, fats = 2,
            serving_size = Some ''1 bowl'', image_url = None, entry_date = day\<rparr>"

definition toast :: EntryDraft where
  "toast = \<lparr>food_name = ''Toast'', calories = 250, protein = 8, carbs = 40, fats = 6,
            serving_size = None, image_url = None, entry_date = day\<rparr>"

definition soup :: EntryDraft where
  "soup = \<lparr>food_name = ''Soup'', calories = 120, protein = 5, carbs = 15, fats = 4,
           serving_size = None, image_url = None, entry_date = day\<rparr>"

text \<open>The entry a server answers with for a draft: the draft with an identifier and a time.\<close>

definition served :: "int \<Rightarrow> string \<Rightarrow> EntryDraft \<Rightarrow> FoodEntry" where
  "served i t d =
     \<lparr>food_name = food_name d, calories = calories d, protein = protein d, carbs = carbs d,
      fats = fats d, serving_size = serving_size d, image_url = image_url d,
      entry_date = entry_date d, entry_id = i, created_at = t\<rparr>"

definition at8 :: string where
  "at8 = ''2024-05-01T08:00:00.000Z''"

definition at9 :: string where
  "at9 = ''2024-05-01T09:00:00.000Z''"

definition at10 :: string where
  "at10 = ''2024-05-01T10:00:00.000Z''"

definition example_time :: "string \<Rightarrow> int" where
  "example_time s =
     (if s = at8 then 1714550400000
      else if s = at9 then 1714554000000
      else if s = at10 then 1714557600000
      else 0)"

text \<open>A remote service that fails every call.\<close>

definition offline :: env where
  "offline =
     \<lparr>api_get_entries = (\<lambda>l d. Inl NetworkError),
      api_get_summary = (\<lambda>l d. Inl NetworkError),
      api_post_entry = (\<lambda>l d. Inl NetworkError),
      api_delete_entry = (\<lambda>l i. Inl NetworkError),
      getTime = example_time\<rparr>"

text \<open>
  A remote service whose writes work again: a post is answered with the draft under a
  fresh server identifier (500, 501, ... by the number of requests seen), a delete succeeds;
  reads still fail.
\<close>

definition recovered :: env where
  "recovered =
     offline\<lparr>api_post_entry := (\<lambda>l d. Inr (served (500 + int (length l)) at10 d)),
             api_delete_entry := (\<lambda>l i. Inr ())\<rparr>"

text \<open>A remote service whose list call answers with the given entries.\<close>

definition listing :: "FoodEntry list \<Rightarrow> env" where
  "listing data = recovered\<lparr>api_get_entries := (\<lambda>l d. Inr data)\<rparr>"

text \<open>A remote service where exactly the second request fails.\<close>

definition second_fails :: env where
  "second_fails =
     recovered\<lparr>api_post_entry := (\<lambda>l d.
        if length l = 1 then Inl ServerError
        else Inr (served (500 + int (length l)) at10 d))\<rparr>"

text \<open>
  A remote service that numbers its entries 1, 2, ...: of three posts the second fails, the
  first and the third are stored as entries 1 and 2, and the list call returns these two.
\<close>

definition small_ids :: env where
  "small_ids =
     offline\<lparr>api_post_entry := (\<lambda>l d.
                if l = [] then Inr (served 1 at10 d)
                else if length l = 1 then Inl ServerError
                else Inr (served 2 at10 d)),
             api_get_entries := (\<lambda>l d. Inr [served 1 at10 apple, served 2 at10 soup])\<rparr>"

text \<open>A remote service whose summary call succeeds once, with goals of the user, then fails.\<close>

definition user_summary :: MacroSummary where
  "user_summary =
     \<lparr>date = day, MacroSummary.calories = 300, MacroSummary.protein = 1,
      MacroSummary.carbs = 70, MacroSummary.fats = 2,
      calorie_goal = 2500, protein_goal = 180, carb_goal = 250, fat_goal = 80\<rparr>"

definition summary_once :: env where
  "summary_once =
     offline\<lparr>api_get_summary := (\<lambda>l d. if l = [] then Inr user_summary else Inl NetworkError)\<rparr>"

text \<open>Fresh states of the store on the three platforms.\<close>

definition fresh :: "cache \<Rightarrow> world" where
  "fresh c = \<lparr>entries = [], summary = None, isLoading = False, selectedDate = day,
              cache = c, calls = []\<rparr>"

text \<open>A web cache holding two entries of the day that came from the server.\<close>

definition next_day :: string where
  "next_day = ''2024-05-02''"

text \<open>A store that holds the two entries of the day in memory.\<close>

definition mem_two :: world where
  "mem_two = (fresh NoCache)\<lparr>entries := [served 7 at8 apple, served 8 at9 toast]\<rparr>"

text \<open>A mobile store after one \<open>addEntry\<close> that failed remotely: one pending row.\<close>

definition sqlite_pending :: world where
  "sqlite_pending = snd (addEntry offline at8 1714550400000 apple (fresh (SqliteCache [] 0)))"

text \<open>A mobile store after a fetch that returned one entry: one confirmed row.\<close>

definition sqlite_confirmed :: world where
  "sqlite_confirmed =
     snd (fetchEntries (listing [served 7 at8 apple]) (Some day) (fresh (SqliteCache [] 0)))"

text \<open>A mobile store with three pending rows and no request made yet.\<close>

definition three_pending :: world where
  "three_pending =
     fresh (SqliteCache
       [\<lparr>row_entry = served 1 at8 apple, synced = 0\<rparr>,
        \<lparr>row_entry = served 2 at9 toast, synced = 0\<rparr>,
        \<lparr>row_entry = served 3 at10 soup, synced = 0\<rparr>] 3)"

text \<open>A web store after a fetch that returned one entry.\<close>

definition web_confirmed :: world where
  "web_confirmed =
     snd (fetchEntries (listing [served 7 at8 apple]) (Some day) (fresh (WebCache [])))"

text \<open>A web store after two \<open>addEntry\<close> calls with the same draft that failed remotely.\<close>

definition web_two_pending :: world where
  "web_two_pending =
     snd (addEntry offline at8 1714550400001 apple
       (snd (addEntry offline at8 1714550400000 apple (fresh (WebCache [])))))"

text \<open>A mobile store after two \<open>addEntry\<close> calls with the same draft that failed remotely.\<close>

definition sqlite_two_pending :: world where
  "sqlite_two_pending =
     snd (addEntry offline at8 1714550400001 apple
       (snd (addEntry offline at8 1714550400000 apple (fresh (SqliteCache [] 0)))))"


text \<open>A web store whose three cached entries have small identifiers.\<close>

definition web_three :: world where
  "web_three =
     fresh (WebCache [served 1 at8 apple, served 2 at9 toast, served 3 at10 soup])"

definition web_two :: world where
  "web_two = fresh (WebCache [served 7 at8 apple, served 8 at9 toast])"

section \<open>Basic facts about the summary refresh\<close>

lemma fetchSummary_returns: "fst (fetchSummary E d w) = Returned"
  by (simp add: fetchSummary_def Let_def split: sum.splits prod.splits)

lemma fetchSummary_cache: "cache (snd (fetchSummary E d w)) = cache w"
  by (simp add: fetchSummary_def Let_def split: sum.splits prod.splits)

lemma fetchSummary_entries: "entries (snd (fetchSummary E d w)) = entries w"
  by (simp add: fetchSummary_def Let_def split: sum.splits prod.splits)

lemma fetchSummary_calls:
  "calls (snd (fetchSummary E d w)) = calls w @ [GetSummary (targetDate d w)]"
  by (simp add: fetchSummary_def Let_def split: sum.splits prod.splits)

section \<open>Reading while the remote service fails\<close>

text \<open>
  C9. When the remote list call fails, \<open>fetchEntries\<close> raises nothing: it returns normally,
  the entries it hands to the caller (the store's \<open>entries\<close>) are what \<open>getCachedEntries\<close>
  gives for the requested date, and the cache itself is left as it was.
\<close>

theorem fetchEntries_failure_serves_cache:
  assumes "api_get_entries E (calls w) (targetDate d w) = Inl err"
  shows "fst (fetchEntries E d w) = Returned
       \<and> entries (snd (fetchEntries E d w)) = getCachedEntries (getTime E) (targetDate d w) (cache w)
       \<and> cache (snd (fetchEntries E d w)) = cache w
       \<and> isLoading (snd (fetchEntries E d w)) = False"
  using assms by (simp add: fetchEntries_def Let_def)

theorem fetchEntries_failure_serves_cache_witness:
  "api_get_entries offline (calls web_two) (targetDate (Some day) web_two) = Inl NetworkError
   \<and> fst (fetchEntries offline (Some day) web_two) = Returned
   \<and> entries (snd (fetchEntries offline (Some day) web_two))
       = [served 8 at9 toast, served 7 at8 apple]"
  using fetchEntries_failure_serves_cache [of offline web_two "Some day" NetworkError]
  by (simp add: offline_def web_two_def fresh_def targetDate_def day_def served_def apple_def
      toast_def sort_desc_def example_time_def at8_def at9_def at10_def)

section \<open>Writing while the remote service fails\<close>





lemma entry_id_sql_values [simp]: "entry_id (sql_values e) = entry_id e"
  by (simp add: sql_values_def)



section \<open>Deleting an entry\<close>

lemma sqlite_pending_cache:
  "cache sqlite_pending = SqliteCache [\<lparr>row_entry = served 1 at8 apple, synced = 0\<rparr>] 1"
  by (simp add: sqlite_pending_def addEntry_def cacheEntry_def Let_def offline_def fresh_def
      next_rowid_def table_put_def sql_values_def or_null_def entryToCache_def served_def apple_def)

lemma sqlite_pending_calls: "calls sqlite_pending = [PostEntry apple]"
  by (simp add: sqlite_pending_def addEntry_def cacheEntry_def Let_def offline_def fresh_def)

lemma sqlite_pending_selectedDate: "selectedDate sqlite_pending = day"
  by (simp add: sqlite_pending_def addEntry_def cacheEntry_def Let_def offline_def fresh_def)

text \<open>
  C5, as stated, fails: after a failed \<open>addEntry\<close> the mobile cache holds one pending row
  with identifier 1; \<open>deleteEntry(1)\<close> against a service that accepts the delete sends the
  remote delete (and the summary refresh), returns normally, and the pending row is still
  in the cache.
\<close>

theorem deleteEntry_pending_counterexample:
  "unsynced (cache sqlite_pending) = [served 1 at8 apple]
   \<and> fst (deleteEntry recovered 1 sqlite_pending) = Returned
   \<and> calls (snd (deleteEntry recovered 1 sqlite_pending))
       = calls sqlite_pending @ [DeleteEntry 1, GetSummary day]
   \<and> unsynced (cache (snd (deleteEntry recovered 1 sqlite_pending))) = [served 1 at8 apple]"
  by (simp add: deleteEntry_def Let_def fetchSummary_returns fetchSummary_cache fetchSummary_calls
      sqlite_pending_cache sqlite_pending_calls sqlite_pending_selectedDate targetDate_def
      recovered_def offline_def)

text \<open>
  C5, amended. For every identifier, also one of a pending entry, \<open>deleteEntry\<close> first sends
  the remote delete for it and never modifies the local cache.
\<close>

theorem deleteEntry_always_remote_cache_untouched:
  "take (Suc (length (calls w))) (calls (snd (deleteEntry E i w))) = calls w @ [DeleteEntry i]
   \<and> cache (snd (deleteEntry E i w)) = cache w"
  by (simp add: deleteEntry_def Let_def fetchSummary_cache fetchSummary_calls split: sum.splits)

lemma sqlite_confirmed_cache:
  "cache sqlite_confirmed = SqliteCache [\<lparr>row_entry = served 7 at8 apple, synced = 1\<rparr>] 7"
  by (simp add: sqlite_confirmed_def fetchEntries_def Let_def listing_def recovered_def offline_def
      fresh_def table_put_def sql_values_def or_null_def served_def apple_def)

lemma sqlite_confirmed_entries: "entries sqlite_confirmed = [served 7 at8 apple]"
  by (simp add: sqlite_confirmed_def fetchEntries_def Let_def listing_def recovered_def offline_def
      fresh_def)

text \<open>
  C6, as stated, fails: a confirmed entry with identifier 7 is in memory and in the mobile
  cache; the remote delete succeeds; afterwards the entry is gone from memory and is still
  a row of the cache.
\<close>

theorem deleteEntry_confirmed_counterexample:
  "api_delete_entry recovered (calls sqlite_confirmed) 7 = Inr ()
   \<and> fst (deleteEntry recovered 7 sqlite_confirmed) = Returned
   \<and> entries (snd (deleteEntry recovered 7 sqlite_confirmed)) = []
   \<and> cache (snd (deleteEntry recovered 7 sqlite_confirmed))
       = SqliteCache [\<lparr>row_entry = served 7 at8 apple, synced = 1\<rparr>] 7"
  by (simp add: deleteEntry_def Let_def fetchSummary_returns fetchSummary_cache fetchSummary_entries
      sqlite_confirmed_cache sqlite_confirmed_entries recovered_def offline_def served_def)

text \<open>
  C6, amended. \<open>deleteEntry\<close> removes the entries with the identifier from the in-memory
  list exactly when the remote delete succeeds, and returns normally then; when it fails,
  the error is raised and nothing but the request log changes. The local cache is the same
  afterwards in both cases.
\<close>

theorem deleteEntry_memory_only:
  "(\<forall>u. api_delete_entry E (calls w) i = Inr u \<longrightarrow>
       fst (deleteEntry E i w) = Returned
     \<and> entries (snd (deleteEntry E i w)) = filter (\<lambda>entry. entry_id entry \<noteq> i) (entries w)
     \<and> cache (snd (deleteEntry E i w)) = cache w)
   \<and> (\<forall>err. api_delete_entry E (calls w) i = Inl err \<longrightarrow>
       deleteEntry E i w = (Raised err, w\<lparr>calls := calls w @ [DeleteEntry i]\<rparr>))"
  by (simp add: deleteEntry_def Let_def fetchSummary_returns fetchSummary_cache fetchSummary_entries)

theorem deleteEntry_memory_only_witness:
  "api_delete_entry recovered (calls sqlite_confirmed) 7 = Inr ()
   \<and> entries (snd (deleteEntry recovered 7 sqlite_confirmed)) = []
   \<and> cache (snd (deleteEntry recovered 7 sqlite_confirmed)) = cache sqlite_confirmed
   \<and> api_delete_entry offline (calls sqlite_confirmed) 7 = Inl NetworkError
   \<and> deleteEntry offline 7 sqlite_confirmed
       = (Raised NetworkError, sqlite_confirmed\<lparr>calls := calls sqlite_confirmed @ [DeleteEntry 7]\<rparr>)"
  using deleteEntry_memory_only [of recovered sqlite_confirmed 7]
    deleteEntry_memory_only [of offline sqlite_confirmed 7]
  by (simp add: recovered_def offline_def sqlite_confirmed_entries served_def)

section \<open>The daily summary\<close>

lemma foldl_totals:
  "foldl (\<lambda>(c, p, cb, f) entry. (c + calories entry, p + protein entry, cb + carbs entry, f + fats entry))
     (c0, p0, cb0, f0) es
   = (c0 + sum_list (map calories es), p0 + sum_list (map protein es),
      cb0 + sum_list (map carbs es), f0 + sum_list (map fats es))"
  by (induction es arbitrary: c0 p0 cb0 f0) (simp_all add: add.assoc)

lemma totals_sums:
  "totals es = (sum_list (map calories es), sum_list (map protein es),
                sum_list (map carbs es), sum_list (map fats es))"
  by (simp add: totals_def foldl_totals)

text \<open>
  C7, as stated, fails. Two entries of 2024-05-01 (300 and 250 calories) are in memory. A
  first summary call succeeds and brings the user's goals (2500 calories, ...); a second
  call, for 2024-05-02, fails. The fallback summary for 2024-05-02 counts the 550 calories
  of the entries of 2024-05-01, and its goals are the built-in 2000/150/200/65, not the
  goals fetched before.
\<close>

theorem fetchSummary_fallback_counterexample:
  "map entry_date (entries mem_two) = [day, day] \<and> day \<noteq> next_day
   \<and> summary (snd (fetchSummary summary_once (Some day) mem_two)) = Some user_summary
   \<and> calorie_goal user_summary = 2500
   \<and> summary (snd (fetchSummary summary_once (Some next_day)
                     (snd (fetchSummary summary_once (Some day) mem_two))))
       = Some \<lparr>date = next_day, MacroSummary.calories = 550, MacroSummary.protein = 9,
               MacroSummary.carbs = 110, MacroSummary.fats = 8,
               calorie_goal = 2000, protein_goal = 150, carb_goal = 200, fat_goal = 65\<rparr>"
  by (simp add: fetchSummary_def Let_def totals_sums summary_once_def offline_def mem_two_def
      fresh_def targetDate_def user_summary_def served_def apple_def toast_def day_def next_day_def)

text \<open>
  C7, amended. On remote success \<open>fetchSummary\<close> stores the returned summary as the store's
  summary. On remote failure the stored summary carries the requested date, totals that
  are the sums of the four macro fields over every entry held in memory (whatever its date
  and sync state), and always the built-in goals 2000, 150, 200 and 65. In both cases the
  call returns normally.
\<close>

theorem fetchSummary_success_or_fallback:
  "fst (fetchSummary E d w) = Returned
   \<and> (\<forall>data. api_get_summary E (calls w) (targetDate d w) = Inr data \<longrightarrow>
         summary (snd (fetchSummary E d w)) = Some data)
   \<and> (\<forall>err. api_get_summary E (calls w) (targetDate d w) = Inl err \<longrightarrow>
         summary (snd (fetchSummary E d w))
           = Some \<lparr>date = targetDate d w,
                   MacroSummary.calories = sum_list (map calories (entries w)),
                   MacroSummary.protein = sum_list (map protein (entries w)),
                   MacroSummary.carbs = sum_list (map carbs (entries w)),
                   MacroSummary.fats = sum_list (map fats (entries w)),
                   calorie_goal = 2000, protein_goal = 150, carb_goal = 200, fat_goal = 65\<rparr>)"
proof (intro conjI allI impI)
  show "fst (fetchSummary E d w) = Returned" by (rule fetchSummary_returns)
next
  fix data assume "api_get_summary E (calls w) (targetDate d w) = Inr data"
  then show "summary (snd (fetchSummary E d w)) = Some data"
    by (simp add: fetchSummary_def Let_def)
next
  fix err assume "api_get_summary E (calls w) (targetDate d w) = Inl err"
  then show "summary (snd (fetchSummary E d w))
      = Some \<lparr>date = targetDate d w,
              MacroSummary.calories = sum_list (map calories (entries w)),
              MacroSummary.protein = sum_list (map protein (entries w)),
              MacroSummary.carbs = sum_list (map carbs (entries w)),
              MacroSummary.fats = sum_list (map fats (entries w)),
              calorie_goal = 2000, protein_goal = 150, carb_goal = 200, fat_goal = 65\<rparr>"
    by (simp add: fetchSummary_def Let_def totals_sums)
qed

theorem fetchSummary_success_or_fallback_witness:
  "api_get_summary summary_once (calls mem_two) (targetDate (Some day) mem_two) = Inr user_summary
   \<and> summary (snd (fetchSummary summary_once (Some day) mem_two)) = Some user_summary
   \<and> api_get_summary offline (calls mem_two) (targetDate (Some day) mem_two) = Inl NetworkError
   \<and> summary (snd (fetchSummary offline (Some day) mem_two))
       = Some \<lparr>date = day, MacroSummary.calories = 550, MacroSummary.protein = 9,
               MacroSummary.carbs = 110, MacroSummary.fats = 8,
               calorie_goal = 2000, protein_goal = 150, carb_goal = 200, fat_goal = 65\<rparr>"
  using fetchSummary_success_or_fallback [of summary_once "Some day" mem_two]
    fetchSummary_success_or_fallback [of offline "Some day" mem_two]
  by (simp add: summary_once_def offline_def mem_two_def fresh_def targetDate_def
      served_def apple_def toast_def day_def)

section \<open>The sync loop\<close>

lemma findIndex_ge: "- 1 \<le> findIndex P xs"
  by (induction xs) (auto simp: Let_def)

lemma findIndex_Cons_update:
  "(if 0 \<le> findIndex P (x # xs) then (x # xs)[nat (findIndex P (x # xs)) := d] else x # xs)
   = (if P x then d # xs
      else x # (if 0 \<le> findIndex P xs then xs[nat (findIndex P xs) := d] else xs))"
  using findIndex_ge [of P xs] by (auto simp: Let_def nat_add_distrib)

lemma update_findIndex_keeps:
  "e \<in> set xs \<Longrightarrow> \<not> P e \<Longrightarrow>
   e \<in> set (if 0 \<le> findIndex P xs then xs[nat (findIndex P xs) := d] else xs)"
proof (induction xs)
  case Nil
  then show ?case by simp
next
  case (Cons x xs)
  then show ?case
    unfolding findIndex_Cons_update by auto
qed

lemma sync_entry_calls: "calls (sync_entry E e w) = calls w @ [PostEntry (draft_of e)]"
  by (simp add: sync_entry_def Let_def split: sum.splits)

lemma sync_loop_Nil: "sync_loop E [] w = w"
  by (simp add: sync_loop_def)

lemma sync_loop_Cons: "sync_loop E (e # es) w = sync_loop E es (sync_entry E e w)"
  by (simp add: sync_loop_def)

lemma sync_loop_calls:
  "calls (sync_loop E es w) = calls w @ map (\<lambda>e. PostEntry (draft_of e)) es"
  by (induction es arbitrary: w) (simp_all add: sync_loop_Nil sync_loop_Cons sync_entry_calls)

lemma posted_ok_subset: "set (posted_ok E l es) \<subseteq> set es"
  by (induction es arbitrary: l) (auto split: sum.splits)

lemma posted_ok_nth:
  assumes "distinct es" and "i < length es"
  shows "es ! i \<in> set (posted_ok E l es)
     \<longleftrightarrow> (\<exists>data. api_post_entry E (l @ map (\<lambda>e. PostEntry (draft_of e)) (take i es))
                     (draft_of (es ! i)) = Inr data)"
  using assms
proof (induction es arbitrary: l i)
  case Nil
  then show ?case by simp
next
  case (Cons e es)
  show ?case
  proof (cases i)
    case 0
    have "e \<notin> set (posted_ok E (l @ [PostEntry (draft_of e)]) es)"
      using Cons.prems(1) posted_ok_subset [of E "l @ [PostEntry (draft_of e)]" es] by auto
    then show ?thesis using 0 by (auto split: sum.splits)
  next
    case (Suc j)
    then have j: "j < length es" using Cons.prems(2) by simp
    have ne: "es ! j \<noteq> e" using Cons.prems(1) j by auto
    have "es ! j \<in> set (posted_ok E l (e # es))
        \<longleftrightarrow> es ! j \<in> set (posted_ok E (l @ [PostEntry (draft_of e)]) es)"
      using ne by (auto split: sum.splits)
    also have "\<dots> \<longleftrightarrow> (\<exists>data. api_post_entry E
          ((l @ [PostEntry (draft_of e)]) @ map (\<lambda>e. PostEntry (draft_of e)) (take j es))
          (draft_of (es ! j)) = Inr data)"
      using Cons.IH [of j "l @ [PostEntry (draft_of e)]"] Cons.prems(1) j by simp
    finally show ?thesis using Suc by simp
  qed
qed

lemma posted_ok_all:
  "\<forall>l d. \<exists>data. api_post_entry E l d = Inr data \<Longrightarrow> posted_ok E l es = es"
proof (induction es arbitrary: l)
  case Nil
  then show ?case by simp
next
  case (Cons e es)
  from Cons.prems obtain data where "api_post_entry E l (draft_of e) = Inr data" by blast
  with Cons show ?case by simp
qed

text \<open>On mobile the loop marks exactly the rows whose identifier belongs to a posted entry.\<close>

lemma sync_loop_sqlite:
  "cache w = SqliteCache t seq \<Longrightarrow>
   cache (sync_loop E es w)
     = SqliteCache
         (map (\<lambda>r. if row_id r \<in> entry_id ` set (posted_ok E (calls w) es)
                    then r\<lparr>synced := 1\<rparr> else r) t) seq"
proof (induction es arbitrary: w t)
  case Nil
  then show ?case by (simp add: sync_loop_Nil)
next
  case (Cons e es)
  show ?case
  proof (cases "api_post_entry E (calls w) (draft_of e)")
    case (Inl err)
    then have "cache (sync_entry E e w) = SqliteCache t seq"
      using Cons.prems by (simp add: sync_entry_def Let_def)
    from Cons.IH [OF this] Inl show ?thesis
      by (simp add: sync_loop_Cons sync_entry_calls)
  next
    case (Inr data)
    then have "cache (sync_entry E e w)
        = SqliteCache (map (\<lambda>r. if row_id r = entry_id e then r\<lparr>synced := 1\<rparr> else r) t) seq"
      using Cons.prems by (simp add: sync_entry_def Let_def)
    from Cons.IH [OF this] Inr show ?thesis
      by (auto simp: sync_loop_Cons sync_entry_calls row_id_def)
  qed
qed

text \<open>On web the loop keeps every cached entry whose identifier no posted entry has.\<close>

lemma sync_loop_web:
  "cache w = WebCache c \<Longrightarrow>
   \<exists>c'. cache (sync_loop E es w) = WebCache c'
      \<and> (\<forall>x\<in>set c. entry_id x \<notin> entry_id ` set (posted_ok E (calls w) es) \<longrightarrow> x \<in> set c')"
proof (induction es arbitrary: w c)
  case Nil
  then show ?case by (simp add: sync_loop_Nil)
next
  case (Cons e es)
  show ?case
  proof (cases "api_post_entry E (calls w) (draft_of e)")
    case (Inl err)
    then have "cache (sync_entry E e w) = WebCache c"
      using Cons.prems by (simp add: sync_entry_def Let_def)
    from Cons.IH [OF this] Inl show ?thesis
      by (simp add: sync_loop_Cons sync_entry_calls)
  next
    case (Inr data)
    let ?c1 = "if 0 \<le> findIndex (\<lambda>x. entry_id x = entry_id e) c
               then c[nat (findIndex (\<lambda>x. entry_id x = entry_id e) c) := data] else c"
    have c1: "cache (sync_entry E e w) = WebCache ?c1"
      using Cons.prems Inr by (simp add: sync_entry_def Let_def)
    from Cons.IH [OF c1] obtain c' where
      c': "cache (sync_loop E es (sync_entry E e w)) = WebCache c'"
      and keep: "\<forall>x\<in>set ?c1. entry_id x \<notin>
           entry_id ` set (posted_ok E (calls (sync_entry E e w)) es) \<longrightarrow> x \<in> set c'"
      by blast
    have "x \<in> set c'" if "x \<in> set c"
      and "entry_id x \<notin> entry_id ` set (posted_ok E (calls w) (e # es))" for x
    proof -
      from that(2) Inr have ne: "entry_id x \<noteq> entry_id e"
        and rest: "entry_id x \<notin> entry_id ` set (posted_ok E (calls w @ [PostEntry (draft_of e)]) es)"
        by auto
      from that(1) ne have "x \<in> set ?c1" by (rule update_findIndex_keeps)
      with keep rest show ?thesis by (simp add: sync_entry_calls)
    qed
    with c' show ?thesis by (simp add: sync_loop_Cons)
  qed
qed

lemma unsynced_subset: "set (unsynced c) \<subseteq> set (cache_entries c)"
  by (cases c) auto

lemma unsynced_distinct:
  "distinct (map entry_id (cache_entries c)) \<Longrightarrow> distinct (map entry_id (unsynced c))"
proof (cases c)
  case (WebCache es)
  assume "distinct (map entry_id (cache_entries c))"
  with WebCache show ?thesis by (simp add: distinct_map_filter)
next
  case (SqliteCache t seq)
  assume "distinct (map entry_id (cache_entries c))"
  with SqliteCache have "distinct (map (entry_id \<circ> row_entry) t)" by simp
  then have "distinct (map (entry_id \<circ> row_entry) (filter (\<lambda>r. synced r = 0) t))"
    by (rule distinct_map_filter)
  with SqliteCache show ?thesis by simp
next
  case NoCache
  then show ?thesis by simp
qed

lemma unposted_id:
  assumes "distinct (map entry_id es)" and "i < length es"
    and "es ! i \<notin> set (posted_ok E l es)"
  shows "entry_id (es ! i) \<notin> entry_id ` set (posted_ok E l es)"
proof
  assume "entry_id (es ! i) \<in> entry_id ` set (posted_ok E l es)"
  then obtain x where x: "x \<in> set (posted_ok E l es)" and eq: "entry_id x = entry_id (es ! i)"
    by auto
  from x have "x \<in> set es" using posted_ok_subset by blast
  moreover have "es ! i \<in> set es" using assms(2) by simp
  moreover have "inj_on entry_id (set es)" using assms(1) by (simp add: distinct_map)
  ultimately have "x = es ! i" using eq by (auto dest: inj_onD)
  with x assms(3) show False by simp
qed

text \<open>An entry of the loop whose post did not succeed is selected again afterwards.\<close>

lemma sync_loop_keeps_unposted:
  assumes d: "distinct (map entry_id (cache_entries (cache w)))"
    and i: "i < length (unsynced (cache w))"
    and f: "unsynced (cache w) ! i \<notin> set (posted_ok E (calls w) (unsynced (cache w)))"
  shows "unsynced (cache w) ! i \<in> set (unsynced (cache (sync_loop E (unsynced (cache w)) w)))"
proof -
  let ?us = "unsynced (cache w)"
  let ?ok = "posted_ok E (calls w) ?us"
  have mem: "?us ! i \<in> set ?us" using i by simp
  have nid: "entry_id (?us ! i) \<notin> entry_id ` set ?ok"
    using unsynced_distinct [OF d] i f by (rule unposted_id)
  show ?thesis
  proof (cases "cache w")
    case (WebCache c)
    from sync_loop_web [OF WebCache, of E ?us] obtain c' where
      c': "cache (sync_loop E ?us w) = WebCache c'"
      and keep: "\<forall>x\<in>set c. entry_id x \<notin> entry_id ` set ?ok \<longrightarrow> x \<in> set c'"
      by blast
    from mem WebCache have "?us ! i \<in> set c"
      and small: "entry_id (?us ! i) = 0 \<or> entry_id (?us ! i) < 1000000000000" by auto
    with keep nid have "?us ! i \<in> set c'" by blast
    with small c' show ?thesis by simp
  next
    case (SqliteCache t seq)
    from mem SqliteCache obtain r where r: "r \<in> set t" "synced r = 0" "row_entry r = ?us ! i"
      by auto
    with nid have "row_id r \<notin> entry_id ` set ?ok" by (simp add: row_id_def)
    with r have "r \<in> set (map (\<lambda>r. if row_id r \<in> entry_id ` set ?ok then r\<lparr>synced := 1\<rparr> else r) t)"
      by force
    with r sync_loop_sqlite [OF SqliteCache, of E ?us] show ?thesis by force
  next
    case NoCache
    with i show ?thesis by simp
  qed
qed

text \<open>On mobile an entry of the loop whose post succeeded is a confirmed row afterwards.\<close>

lemma sync_loop_marks_posted:
  assumes c: "cache w = SqliteCache t seq"
    and p: "e \<in> set (posted_ok E (calls w) (unsynced (cache w)))"
  shows "\<exists>t'. cache (sync_loop E (unsynced (cache w)) w) = SqliteCache t' seq
             \<and> map row_entry t' = map row_entry t
             \<and> \<lparr>row_entry = e, synced = 1\<rparr> \<in> set t'
             \<and> e \<notin> set (unsynced (cache (sync_loop E (unsynced (cache w)) w)))"
proof -
  let ?us = "unsynced (cache w)"
  let ?ok = "posted_ok E (calls w) ?us"
  let ?t' = "map (\<lambda>r. if row_id r \<in> entry_id ` set ?ok then r\<lparr>synced := 1\<rparr> else r) t"
  have c': "cache (sync_loop E ?us w) = SqliteCache ?t' seq"
    by (rule sync_loop_sqlite [OF c])
  have same: "map row_entry ?t' = map row_entry t" by (simp add: comp_def if_distrib)
  from p have "e \<in> set ?us" using posted_ok_subset by blast
  with c obtain r where r: "r \<in> set t" "synced r = 0" "row_entry r = e" by auto
  with p have "row_id r \<in> entry_id ` set ?ok" by (auto simp: row_id_def)
  with r have "r\<lparr>synced := 1\<rparr> \<in> set ?t'" by force
  moreover have "r\<lparr>synced := 1\<rparr> = \<lparr>row_entry = e, synced = 1\<rparr>" using r by simp
  ultimately have inn: "\<lparr>row_entry = e, synced = 1\<rparr> \<in> set ?t'" by simp
  have "e \<notin> set (unsynced (SqliteCache ?t' seq))"
  proof
    assume "e \<in> set (unsynced (SqliteCache ?t' seq))"
    then obtain r' where r': "r' \<in> set ?t'" "synced r' = 0" "row_entry r' = e" by auto
    then obtain r0 where r0: "r0 \<in> set t"
      "r' = (if row_id r0 \<in> entry_id ` set ?ok then r0\<lparr>synced := 1\<rparr> else r0)" by auto
    with r' have "row_entry r0 = e" by (auto split: if_splits)
    with p have "row_id r0 \<in> entry_id ` set ?ok" by (auto simp: row_id_def)
    with r0 r' show False by simp
  qed
  with c' same inn show ?thesis by simp
qed

text \<open>
  What the loop alone does, before the refresh, on a cache whose identifiers are distinct:
  every selected entry is posted, in order, whatever the earlier posts did; an entry whose
  post fails is selected again afterwards, unchanged; and on mobile an entry whose post
  succeeds is a row with \<open>synced = 1\<close> afterwards and no longer selected, while no row is
  added, removed or rewritten.
\<close>

lemma sync_loop_failure_resilient:
  assumes "distinct (map entry_id (cache_entries (cache w)))"
  shows "calls (sync_loop E (unsynced (cache w)) w)
           = calls w @ map (\<lambda>e. PostEntry (draft_of e)) (unsynced (cache w))
       \<and> (\<forall>i<length (unsynced (cache w)). \<forall>err.
            api_post_entry E
              (calls w @ map (\<lambda>e. PostEntry (draft_of e)) (take i (unsynced (cache w))))
              (draft_of (unsynced (cache w) ! i)) = Inl err
            \<longrightarrow> unsynced (cache w) ! i
                  \<in> set (unsynced (cache (sync_loop E (unsynced (cache w)) w))))
       \<and> (\<forall>t seq. cache w = SqliteCache t seq \<longrightarrow>
            (\<forall>i<length (unsynced (cache w)). \<forall>data.
               api_post_entry E
                 (calls w @ map (\<lambda>e. PostEntry (draft_of e)) (take i (unsynced (cache w))))
                 (draft_of (unsynced (cache w) ! i)) = Inr data
               \<longrightarrow> (\<exists>t'. cache (sync_loop E (unsynced (cache w)) w) = SqliteCache t' seq
                        \<and> map row_entry t' = map row_entry t
                        \<and> \<lparr>row_entry = unsynced (cache w) ! i, synced = 1\<rparr> \<in> set t'
                        \<and> unsynced (cache w) ! i
                            \<notin> set (unsynced (cache (sync_loop E (unsynced (cache w)) w))))))"
proof (intro conjI allI impI)
  show "calls (sync_loop E (unsynced (cache w)) w)
      = calls w @ map (\<lambda>e. PostEntry (draft_of e)) (unsynced (cache w))"
    by (rule sync_loop_calls)
next
  fix i err
  assume i: "i < length (unsynced (cache w))"
    and fail: "api_post_entry E
      (calls w @ map (\<lambda>e. PostEntry (draft_of e)) (take i (unsynced (cache w))))
      (draft_of (unsynced (cache w) ! i)) = Inl err"
  have "distinct (unsynced (cache w))"
    using unsynced_distinct [OF assms] by (rule distinct_map [THEN iffD1, THEN conjunct1])
  from posted_ok_nth [OF this i, of E "calls w"] fail
  have "unsynced (cache w) ! i \<notin> set (posted_ok E (calls w) (unsynced (cache w)))" by simp
  with assms i
  show "unsynced (cache w) ! i \<in> set (unsynced (cache (sync_loop E (unsynced (cache w)) w)))"
    by (rule sync_loop_keeps_unposted)
next
  fix t seq i data
  assume c: "cache w = SqliteCache t seq" and i: "i < length (unsynced (cache w))"
    and ok: "api_post_entry E
      (calls w @ map (\<lambda>e. PostEntry (draft_of e)) (take i (unsynced (cache w))))
      (draft_of (unsynced (cache w) ! i)) = Inr data"
  have "distinct (unsynced (cache w))"
    using unsynced_distinct [OF assms] by (rule distinct_map [THEN iffD1, THEN conjunct1])
  from posted_ok_nth [OF this i, of E "calls w"] ok
  have "unsynced (cache w) ! i \<in> set (posted_ok E (calls w) (unsynced (cache w)))" by simp
  with c
  show "\<exists>t'. cache (sync_loop E (unsynced (cache w)) w) = SqliteCache t' seq
           \<and> map row_entry t' = map row_entry t
           \<and> \<lparr>row_entry = unsynced (cache w) ! i, synced = 1\<rparr> \<in> set t'
           \<and> unsynced (cache w) ! i
               \<notin> set (unsynced (cache (sync_loop E (unsynced (cache w)) w)))"
    by (rule sync_loop_marks_posted)
qed

lemma three_pending_unsynced:
  "unsynced (cache three_pending) = [served 1 at8 apple, served 2 at9 toast, served 3 at10 soup]"
  by (simp add: three_pending_def fresh_def)

lemma three_pending_second_fails:
  "cache (sync_loop second_fails (unsynced (cache three_pending)) three_pending)
     = SqliteCache
         [\<lparr>row_entry = served 1 at8 apple, synced = 1\<rparr>,
          \<lparr>row_entry = served 2 at9 toast, synced = 0\<rparr>,
          \<lparr>row_entry = served 3 at10 soup, synced = 1\<rparr>] 3"
  by (simp add: three_pending_unsynced sync_loop_def sync_entry_def Let_def)
    (simp add: three_pending_def fresh_def second_fails_def recovered_def offline_def
      row_id_def served_def)

lemma sync_loop_failure_resilient_example:
  "distinct (map entry_id (cache_entries (cache three_pending)))
   \<and> api_post_entry second_fails
       (calls three_pending @ map (\<lambda>e. PostEntry (draft_of e)) (take 1 (unsynced (cache three_pending))))
       (draft_of (unsynced (cache three_pending) ! 1)) = Inl ServerError
   \<and> api_post_entry second_fails
       (calls three_pending @ map (\<lambda>e. PostEntry (draft_of e)) (take 2 (unsynced (cache three_pending))))
       (draft_of (unsynced (cache three_pending) ! 2)) = Inr (served 502 at10 soup)
   \<and> calls (sync_loop second_fails (unsynced (cache three_pending)) three_pending)
       = [PostEntry apple, PostEntry toast, PostEntry soup]
   \<and> unsynced (cache (sync_loop second_fails (unsynced (cache three_pending)) three_pending))
       = [served 2 at9 toast]"
proof -
  have d: "distinct (map entry_id (cache_entries (cache three_pending)))"
    by (simp add: three_pending_def fresh_def served_def)
  have f: "api_post_entry second_fails
       (calls three_pending @ map (\<lambda>e. PostEntry (draft_of e)) (take 1 (unsynced (cache three_pending))))
       (draft_of (unsynced (cache three_pending) ! 1)) = Inl ServerError"
    by (simp add: three_pending_unsynced)
      (simp add: three_pending_def fresh_def second_fails_def recovered_def offline_def)
  have s: "api_post_entry second_fails
       (calls three_pending @ map (\<lambda>e. PostEntry (draft_of e)) (take 2 (unsynced (cache three_pending))))
       (draft_of (unsynced (cache three_pending) ! 2)) = Inr (served 502 at10 soup)"
    by (simp add: three_pending_unsynced)
      (simp add: three_pending_def fresh_def second_fails_def recovered_def offline_def
        served_def draft_of_def soup_def)
  from sync_loop_failure_resilient [OF d, of second_fails]
  have c: "calls (sync_loop second_fails (unsynced (cache three_pending)) three_pending)
      = calls three_pending @ map (\<lambda>e. PostEntry (draft_of e)) (unsynced (cache three_pending))"
    and k: "\<forall>i<length (unsynced (cache three_pending)). \<forall>err.
        api_post_entry second_fails
          (calls three_pending @ map (\<lambda>e. PostEntry (draft_of e)) (take i (unsynced (cache three_pending))))
          (draft_of (unsynced (cache three_pending) ! i)) = Inl err
        \<longrightarrow> unsynced (cache three_pending) ! i
              \<in> set (unsynced (cache (sync_loop second_fails (unsynced (cache three_pending)) three_pending)))"
    by blast+
  have "(1::nat) < length (unsynced (cache three_pending))"
    by (simp add: three_pending_unsynced)
  with k f have "unsynced (cache three_pending) ! 1
      \<in> set (unsynced (cache (sync_loop second_fails (unsynced (cache three_pending)) three_pending)))"
    by blast
  then have "served 2 at9 toast
      \<in> set (unsynced (cache (sync_loop second_fails (unsynced (cache three_pending)) three_pending)))"
    by (simp add: three_pending_unsynced)
  have c': "calls (sync_loop second_fails (unsynced (cache three_pending)) three_pending)
      = [PostEntry apple, PostEntry toast, PostEntry soup]"
    unfolding c by (simp add: three_pending_unsynced)
      (simp add: three_pending_def fresh_def served_def draft_of_def apple_def toast_def soup_def)
  have u: "unsynced (cache (sync_loop second_fails (unsynced (cache three_pending)) three_pending))
      = [served 2 at9 toast]"
    by (simp add: three_pending_second_fails)
  from d f s c' u show ?thesis by blast
qed

section \<open>The whole of \<open>syncOfflineEntries\<close>\<close>

lemma fetchEntries_returns: "fst (fetchEntries E d w) = Returned"
  by (simp add: fetchEntries_def Let_def split: sum.splits)

lemma fetchEntries_cache:
  "cache (snd (fetchEntries E d w))
     = (case api_get_entries E (calls w) (targetDate d w) of
          Inr data \<Rightarrow> fold cacheEntryLocally data (cache w)
        | Inl err \<Rightarrow> cache w)"
  by (simp add: fetchEntries_def Let_def split: sum.splits)

lemma fetchEntries_calls:
  "calls (snd (fetchEntries E d w)) = calls w @ [GetEntries (targetDate d w)]"
  by (simp add: fetchEntries_def Let_def split: sum.splits)

lemma syncOfflineEntries_unfold:
  "syncOfflineEntries E w
     = (Returned, snd (fetchSummary E None
          (snd (fetchEntries E None (sync_loop E (unsynced (cache w)) w)))))"
proof -
  obtain o1 w2 where f: "fetchEntries E None (sync_loop E (unsynced (cache w)) w) = (o1, w2)"
    by (cases "fetchEntries E None (sync_loop E (unsynced (cache w)) w)")
  with fetchEntries_returns [of E None "sync_loop E (unsynced (cache w)) w"]
  have "o1 = Returned" by simp
  with f show ?thesis by (simp add: syncOfflineEntries_def)
qed

lemma set_table_put: "set (table_put r t) = insert r {x \<in> set t. row_id x \<noteq> row_id r}"
  by (auto simp: table_put_def set_insort_key)

text \<open>A fetch never creates a pending row on mobile.\<close>

lemma fold_cacheEntryLocally_no_pending:
  "unsynced (SqliteCache t seq) = [] \<Longrightarrow>
   unsynced (fold cacheEntryLocally data (SqliteCache t seq)) = []"
proof (induction data arbitrary: t seq)
  case Nil
  then show ?case by simp
next
  case (Cons e data)
  from Cons.prems have "\<forall>r\<in>set t. synced r \<noteq> 0" by (simp add: filter_empty_conv)
  then have "unsynced (SqliteCache (table_put \<lparr>row_entry = sql_values e, synced = 1\<rparr> t)
      (max seq (entry_id e))) = []"
    by (simp add: filter_empty_conv set_table_put)
  from Cons.IH [OF this] show ?case by simp
qed

lemma marked_rows_distinct:
  assumes "distinct (map row_id t)"
  shows "map (\<lambda>r. if row_id r \<in> entry_id ` set (unsynced (SqliteCache t seq))
                   then r\<lparr>synced := 1\<rparr> else r) t
       = map (\<lambda>r. if synced r = 0 then r\<lparr>synced := 1\<rparr> else r) t"
proof (rule map_cong [OF refl])
  fix r assume r: "r \<in> set t"
  have inj: "inj_on row_id (set t)" using assms by (simp add: distinct_map)
  have "row_id r \<in> entry_id ` set (unsynced (SqliteCache t seq)) \<longleftrightarrow> synced r = 0 \<or> synced r = 1"
    if "synced r \<noteq> 1"
  proof
    assume "row_id r \<in> entry_id ` set (unsynced (SqliteCache t seq))"
    then obtain r' where r': "r' \<in> set t" "synced r' = 0" "row_id r' = row_id r"
      by (auto simp: row_id_def)
    with inj r have "r' = r" by (auto dest: inj_onD)
    with r' show "synced r = 0 \<or> synced r = 1" by simp
  next
    assume "synced r = 0 \<or> synced r = 1"
    with that r show "row_id r \<in> entry_id ` set (unsynced (SqliteCache t seq))"
      by (force simp: row_id_def)
  qed
  then show "(if row_id r \<in> entry_id ` set (unsynced (SqliteCache t seq))
              then r\<lparr>synced := 1\<rparr> else r)
           = (if synced r = 0 then r\<lparr>synced := 1\<rparr> else r)"
    by (cases "synced r = 1") auto
qed

lemma entry_id_served: "entry_id (served i t d) = i"
  by (simp add: served_def)

text \<open>
  C3 at a failing input. The mobile cache holds one pending row, with identifier 1, made by
  a failed \<open>addEntry\<close>; the service then accepts the post and answers with identifier 501;
  after \<open>syncOfflineEntries\<close> the row is marked as synced and still has identifier 1 and its
  local creation time: the returned entry is not stored, where the web branch of the same
  loop stores it in place of the row.
\<close>

theorem syncOfflineEntries_sqlite_keeps_local_id:
  "unsynced (cache sqlite_pending) = [served 1 at8 apple]
   \<and> api_post_entry recovered (calls sqlite_pending) (draft_of (served 1 at8 apple))
       = Inr (served 501 at10 apple)
   \<and> cache (snd (syncOfflineEntries recovered sqlite_pending))
       = SqliteCache [\<lparr>row_entry = served 1 at8 apple, synced = 1\<rparr>] 1"
proof -
  have pending: "unsynced (cache sqlite_pending) = [served 1 at8 apple]"
    by (simp add: sqlite_pending_cache)
  have reply: "api_post_entry recovered (calls sqlite_pending) (draft_of (served 1 at8 apple))
      = Inr (served 501 at10 apple)"
    by (simp add: sqlite_pending_calls recovered_def offline_def served_def draft_of_def)
  have loop: "cache (sync_loop recovered (unsynced (cache sqlite_pending)) sqlite_pending)
      = SqliteCache [\<lparr>row_entry = served 1 at8 apple, synced = 1\<rparr>] 1"
    using sync_loop_sqlite [OF sqlite_pending_cache, of recovered "unsynced (cache sqlite_pending)"]
    by (simp add: pending reply row_id_def entry_id_served)
  have "api_get_entries recovered l d = Inl NetworkError" for l d
    by (simp add: recovered_def offline_def)
  then have "cache (snd (syncOfflineEntries recovered sqlite_pending))
      = SqliteCache [\<lparr>row_entry = served 1 at8 apple, synced = 1\<rparr>] 1"
    by (simp add: syncOfflineEntries_unfold fetchSummary_cache fetchEntries_cache loop)
  with pending reply show ?thesis by simp
qed

text \<open>
  What the mobile branch does in general: on a table with distinct identifiers, a pass in
  which every post succeeds marks every pending row as synced in place, each row keeping
  its identifier, its date and its content, and after the whole of \<open>syncOfflineEntries\<close>,
  refresh included, no pending row is left.
\<close>

lemma syncOfflineEntries_marks_in_place:
  assumes "cache w = SqliteCache t seq" and "distinct (map row_id t)"
    and "\<forall>l d. \<exists>data. api_post_entry E l d = Inr data"
  shows "cache (sync_loop E (unsynced (cache w)) w)
           = SqliteCache (map (\<lambda>r. if synced r = 0 then r\<lparr>synced := 1\<rparr> else r) t) seq
       \<and> unsynced (cache (snd (syncOfflineEntries E w))) = []"
proof
  let ?t' = "map (\<lambda>r. if synced r = 0 then r\<lparr>synced := 1\<rparr> else r) t"
  show loop: "cache (sync_loop E (unsynced (cache w)) w) = SqliteCache ?t' seq"
    using sync_loop_sqlite [OF assms(1), of E "unsynced (cache w)"]
      posted_ok_all [OF assms(3), of "calls w" "unsynced (cache w)"]
      marked_rows_distinct [OF assms(2), of seq] assms(1)
    by simp
  have none: "unsynced (SqliteCache ?t' seq) = []"
    by (auto simp: filter_empty_conv)
  show "unsynced (cache (snd (syncOfflineEntries E w))) = []"
  proof (cases "api_get_entries E (calls (sync_loop E (unsynced (cache w)) w))
      (targetDate None (sync_loop E (unsynced (cache w)) w))")
    case (Inl err)
    with loop none show ?thesis
      by (simp add: syncOfflineEntries_unfold fetchSummary_cache fetchEntries_cache)
  next
    case (Inr data)
    with loop fold_cacheEntryLocally_no_pending [OF none, of data] show ?thesis
      by (simp add: syncOfflineEntries_unfold fetchSummary_cache fetchEntries_cache)
  qed
qed

lemma syncOfflineEntries_marks_in_place_example:
  "cache three_pending
     = SqliteCache
         [\<lparr>row_entry = served 1 at8 apple, synced = 0\<rparr>,
          \<lparr>row_entry = served 2 at9 toast, synced = 0\<rparr>,
          \<lparr>row_entry = served 3 at10 soup, synced = 0\<rparr>] 3
   \<and> distinct (map row_id
         [\<lparr>row_entry = served 1 at8 apple, synced = 0\<rparr>,
          \<lparr>row_entry = served 2 at9 toast, synced = 0\<rparr>,
          \<lparr>row_entry = served 3 at10 soup, synced = 0\<rparr>])
   \<and> (\<forall>l d. \<exists>data. api_post_entry recovered l d = Inr data)
   \<and> cache (sync_loop recovered (unsynced (cache three_pending)) three_pending)
       = SqliteCache
         [\<lparr>row_entry = served 1 at8 apple, synced = 1\<rparr>,
          \<lparr>row_entry = served 2 at9 toast, synced = 1\<rparr>,
          \<lparr>row_entry = served 3 at10 soup, synced = 1\<rparr>] 3
   \<and> unsynced (cache (snd (syncOfflineEntries recovered three_pending))) = []"
proof -
  have c: "cache three_pending
     = SqliteCache
         [\<lparr>row_entry = served 1 at8 apple, synced = 0\<rparr>,
          \<lparr>row_entry = served 2 at9 toast, synced = 0\<rparr>,
          \<lparr>row_entry = served 3 at10 soup, synced = 0\<rparr>] 3"
    by (simp add: three_pending_def fresh_def)
  have d: "distinct (map row_id
         [\<lparr>row_entry = served 1 at8 apple, synced = 0\<rparr>,
          \<lparr>row_entry = served 2 at9 toast, synced = 0\<rparr>,
          \<lparr>row_entry = served 3 at10 soup, synced = 0\<rparr>])"
    by (simp add: row_id_def served_def)
  have p: "\<forall>l d. \<exists>data. api_post_entry recovered l d = Inr data"
    by (simp add: recovered_def)
  from syncOfflineEntries_marks_in_place [OF c d p] c d p show ?thesis by simp
qed

section \<open>The selection of unsynced entries on web\<close>

lemma web_confirmed_cache: "cache web_confirmed = WebCache [served 7 at8 apple]"
  by (simp add: web_confirmed_def fetchEntries_def Let_def listing_def recovered_def offline_def
      fresh_def)

lemma web_confirmed_calls: "calls web_confirmed = [GetEntries day]"
  by (simp add: web_confirmed_def fetchEntries_def Let_def listing_def recovered_def offline_def
      fresh_def targetDate_def day_def)

lemma web_confirmed_selectedDate: "selectedDate web_confirmed = day"
  by (simp add: web_confirmed_def fetchEntries_def Let_def listing_def recovered_def offline_def
      fresh_def)

text \<open>
  C2 at a failing input. On web the cache holds one entry, with identifier 7, that a fetch
  brought from the server. The next \<open>syncOfflineEntries\<close> selects it (7 is below
  1000000000000) and posts its content again.
\<close>

theorem syncOfflineEntries_web_resubmits_confirmed:
  "cache web_confirmed = WebCache [served 7 at8 apple]
   \<and> unsynced (cache web_confirmed) = [served 7 at8 apple]
   \<and> calls (snd (syncOfflineEntries (listing [served 7 at8 apple]) web_confirmed))
       = [GetEntries day, PostEntry apple, GetEntries day, GetSummary day]"
proof -
  have sel: "unsynced (cache web_confirmed) = [served 7 at8 apple]"
    by (simp add: web_confirmed_cache entry_id_served)
  have "selectedDate (sync_loop E es w) = selectedDate w" for E es w
    by (induction es arbitrary: w)
      (simp_all add: sync_loop_Nil sync_loop_Cons sync_entry_def Let_def split: sum.splits)
  then have "calls (snd (syncOfflineEntries (listing [served 7 at8 apple]) web_confirmed))
      = [GetEntries day, PostEntry (draft_of (served 7 at8 apple)), GetEntries day, GetSummary day]"
    by (simp add: syncOfflineEntries_unfold fetchSummary_calls fetchEntries_calls sync_loop_calls
        sel web_confirmed_calls web_confirmed_selectedDate targetDate_def fetchEntries_def Let_def
        split: sum.splits)
  moreover have "draft_of (served 7 at8 apple) = apple"
    by (simp add: draft_of_def served_def apple_def)
  ultimately show ?thesis using sel web_confirmed_cache by simp
qed

lemma web_two_pending_cache:
  "cache web_two_pending
     = WebCache [served 1714550400000 at8 apple, served 1714550400001 at8 apple]"
  by (simp add: web_two_pending_def addEntry_def cacheEntry_def Let_def offline_def fresh_def
      entryToCache_def served_def)

lemma web_two_pending_calls: "calls web_two_pending = [PostEntry apple, PostEntry apple]"
  by (simp add: web_two_pending_def addEntry_def cacheEntry_def Let_def offline_def fresh_def)

lemma web_two_pending_selectedDate: "selectedDate web_two_pending = day"
  by (simp add: web_two_pending_def addEntry_def cacheEntry_def Let_def offline_def fresh_def)

text \<open>
  C10 at a failing input. On web two \<open>addEntry\<close> calls with the same draft fail remotely
  and leave two rows with the identifiers \<open>Date.now()\<close> gave. When the service accepts
  posts again, \<open>syncOfflineEntries\<close> selects neither row (both identifiers are above
  1000000000000): it sends no post, only the two refresh requests, and the rows stay.
\<close>

theorem syncOfflineEntries_web_skips_pending:
  "cache web_two_pending
     = WebCache [served 1714550400000 at8 apple, served 1714550400001 at8 apple]
   \<and> unsynced (cache web_two_pending) = []
   \<and> calls (snd (syncOfflineEntries recovered web_two_pending))
       = calls web_two_pending @ [GetEntries day, GetSummary day]
   \<and> cache (snd (syncOfflineEntries recovered web_two_pending)) = cache web_two_pending"
proof -
  have sel: "unsynced (cache web_two_pending) = []"
    by (simp add: web_two_pending_cache entry_id_served)
  have "api_get_entries recovered l d = Inl NetworkError" for l d
    by (simp add: recovered_def offline_def)
  then have "calls (snd (syncOfflineEntries recovered web_two_pending))
        = calls web_two_pending @ [GetEntries day, GetSummary day]"
    and "cache (snd (syncOfflineEntries recovered web_two_pending)) = cache web_two_pending"
    by (simp_all add: syncOfflineEntries_unfold fetchSummary_calls fetchSummary_cache
        fetchEntries_calls fetchEntries_cache sel sync_loop_Nil web_two_pending_selectedDate
        targetDate_def fetchEntries_def Let_def)
  with sel web_two_pending_cache show ?thesis by simp
qed

text \<open>
  On mobile the same two failed calls leave two pending rows, 1 and 2, and the next pass
  posts the draft once for each.
\<close>

lemma syncOfflineEntries_sqlite_posts_both:
  "cache sqlite_two_pending
     = SqliteCache [\<lparr>row_entry = served 1 at8 apple, synced = 0\<rparr>,
                    \<lparr>row_entry = served 2 at8 apple, synced = 0\<rparr>] 2
   \<and> calls (snd (syncOfflineEntries recovered sqlite_two_pending))
       = calls sqlite_two_pending @ [PostEntry apple, PostEntry apple, GetEntries day, GetSummary day]"
proof -
  have c: "cache sqlite_two_pending
     = SqliteCache [\<lparr>row_entry = served 1 at8 apple, synced = 0\<rparr>,
                    \<lparr>row_entry = served 2 at8 apple, synced = 0\<rparr>] 2"
    by (simp add: sqlite_two_pending_def addEntry_def cacheEntry_def Let_def offline_def fresh_def
        next_rowid_def table_put_def row_id_def sql_values_def or_null_def entryToCache_def
        served_def apple_def)
  have d: "selectedDate sqlite_two_pending = day"
    by (simp add: sqlite_two_pending_def addEntry_def cacheEntry_def Let_def offline_def fresh_def)
  have sel: "selectedDate (sync_loop E es w) = selectedDate w" for E es w
    by (induction es arbitrary: w)
      (simp_all add: sync_loop_Nil sync_loop_Cons sync_entry_def Let_def split: sum.splits)
  have dr: "draft_of (served i t apple) = apple" for i t
    by (simp add: draft_of_def served_def apple_def)
  have "calls (snd (syncOfflineEntries recovered sqlite_two_pending))
       = calls sqlite_two_pending @ [PostEntry apple, PostEntry apple, GetEntries day, GetSummary day]"
    by (simp add: syncOfflineEntries_unfold fetchSummary_calls fetchEntries_calls sync_loop_calls
        c d sel dr targetDate_def fetchEntries_def Let_def split: sum.splits)
  with c show ?thesis by simp
qed

section \<open>Upserting the entries of a fetch\<close>









section \<open>A successful fetch\<close>


lemma listing_get: "api_get_entries (listing data) l d = Inr data"
  by (simp add: listing_def recovered_def offline_def)




text \<open>
  On mobile the pending rows are the same after the upserts when no returned identifier
  is the identifier of a pending row.
\<close>

lemma fold_cacheEntryLocally_sqlite_pending:
  assumes "entry_id ` set data \<inter> entry_id ` set (unsynced (SqliteCache t seq)) = {}"
  shows "unsynced (fold cacheEntryLocally data (SqliteCache t seq)) = unsynced (SqliteCache t seq)"
  using assms
proof (induction data arbitrary: t seq)
  case Nil
  then show ?case by simp
next
  case (Cons e data)
  let ?t1 = "table_put (confirmed_row e) t"
  have no: "row_id x \<noteq> entry_id e" if "x \<in> set t" "synced x = 0" for x
  proof
    assume eq: "row_id x = entry_id e"
    from that have "row_entry x \<in> set (unsynced (SqliteCache t seq))" by simp
    then have "entry_id (row_entry x) \<in> entry_id ` set (unsynced (SqliteCache t seq))"
      by (rule imageI)
    with eq have "entry_id e \<in> entry_id ` set (unsynced (SqliteCache t seq))"
      by (simp add: row_id_def)
    with Cons.prems show False by auto
  qed
  have "filter (\<lambda>r. synced r = 0) ?t1
      = filter (\<lambda>r. synced r = 0) (filter (\<lambda>x. row_id x \<noteq> entry_id e) t)"
    by (simp add: table_put_def filter_insort_triv confirmed_row_def row_id_def)
  also have "\<dots> = filter (\<lambda>r. synced r = 0) t"
    using no by (induction t) auto
  finally have same: "unsynced (SqliteCache ?t1 (max seq (entry_id e))) = unsynced (SqliteCache t seq)"
    by simp
  with Cons.prems
  have "entry_id ` set data \<inter> entry_id ` set (unsynced (SqliteCache ?t1 (max seq (entry_id e)))) = {}"
    by auto
  from Cons.IH [OF this] same show ?case by (simp add: confirmed_row_def)
qed











text \<open>
  On mobile a returned entry whose identifier is that of a pending row takes the place of
  that row: local rowids and server identifiers share the column \<open>id\<close>.
\<close>

lemma fetchEntries_replaces_pending_of_same_id:
  "unsynced (cache sqlite_pending) = [served 1 at8 apple]
   \<and> cache (snd (fetchEntries (listing [served 1 at9 toast]) (Some day) sqlite_pending))
       = SqliteCache [\<lparr>row_entry = served 1 at9 toast, synced = 1\<rparr>] 1"
  by (simp add: fetchEntries_cache listing_get sqlite_pending_cache table_put_def row_id_def
      entry_id_served)
    (simp add: sql_values_def or_null_def served_def toast_def)

text \<open>The cache after \<open>syncOfflineEntries\<close>: the cache after the loop, refreshed by a fetch.\<close>

lemma syncOfflineEntries_cache:
  "cache (snd (syncOfflineEntries E w))
     = cache (snd (fetchEntries E None (sync_loop E (unsynced (cache w)) w)))"
  by (simp add: syncOfflineEntries_unfold fetchSummary_cache)

section \<open>The primary key of the mobile table is kept by every action\<close>

lemma distinct_map_insort_key:
  "distinct (map f (insort_key f x xs)) \<longleftrightarrow> f x \<notin> f ` set xs \<and> distinct (map f xs)"
  by (induction xs) (auto simp: set_insort_key)

lemma table_put_distinct:
  "distinct (map row_id t) \<Longrightarrow> distinct (map row_id (table_put r t))"
  by (auto simp: table_put_def distinct_map_insort_key distinct_map_filter)

lemma primary_key_cacheEntryLocally:
  "primary_key c \<Longrightarrow> primary_key (cacheEntryLocally e c)"
  by (cases c) (simp_all add: primary_key_def table_put_distinct Let_def)

lemma primary_key_fold_cacheEntryLocally:
  "primary_key c \<Longrightarrow> primary_key (fold cacheEntryLocally data c)"
  by (induction data arbitrary: c) (simp_all add: primary_key_cacheEntryLocally)

lemma primary_key_cacheEntry:
  "primary_key (cache w) \<Longrightarrow> primary_key (cache (cacheEntry now now_ms entry w))"
  by (cases "cache w") (simp_all add: cacheEntry_def Let_def primary_key_def table_put_distinct)

lemma primary_key_replace_synced:
  "primary_key c \<Longrightarrow> primary_key (replace_synced e data c)"
proof (cases c)
  case (SqliteCache t seq)
  have same: "row_id (if row_id r = entry_id e then r\<lparr>synced := 1\<rparr> else r) = row_id r" for r
    by (simp add: row_id_def)
  assume "primary_key c"
  with SqliteCache show ?thesis by (simp add: primary_key_def comp_def same)
qed (simp_all add: primary_key_def Let_def)

lemma primary_key_sync_loop:
  "primary_key (cache w) \<Longrightarrow> primary_key (cache (sync_loop E es w))"
proof (induction es arbitrary: w)
  case Nil
  then show ?case by (simp add: sync_loop_Nil)
next
  case (Cons e es)
  from Cons.prems have "primary_key (cache (sync_entry E e w))"
    by (simp add: sync_entry_def Let_def primary_key_replace_synced split: sum.splits)
  then show ?case by (simp add: sync_loop_Cons Cons.IH)
qed

lemma primary_key_fetchEntries:
  "primary_key (cache w) \<Longrightarrow> primary_key (cache (snd (fetchEntries E d w)))"
  by (simp add: fetchEntries_cache primary_key_fold_cacheEntryLocally split: sum.splits)

lemma primary_key_addEntry:
  "primary_key (cache w) \<Longrightarrow> primary_key (cache (snd (addEntry E now now_ms entry w)))"
proof (cases "api_post_entry E (calls w) entry")
  case (Inl err)
  assume "primary_key (cache w)"
  then have "primary_key (cache (cacheEntry now now_ms entry (w\<lparr>calls := calls w @ [PostEntry entry]\<rparr>)))"
    by (intro primary_key_cacheEntry) simp
  with Inl show ?thesis by (simp add: addEntry_def Let_def)
next
  case (Inr newEntry)
  let ?w1 = "w\<lparr>calls := calls w @ [PostEntry entry], entries := newEntry # entries w\<rparr>"
  assume pk: "primary_key (cache w)"
  obtain o2 w2 where f: "fetchSummary E None ?w1 = (o2, w2)"
    by (cases "fetchSummary E None ?w1")
  with fetchSummary_returns [of E None ?w1] fetchSummary_cache [of E None ?w1]
  have "o2 = Returned" and "cache w2 = cache w" by simp_all
  with Inr f pk show ?thesis
    by (simp add: addEntry_def Let_def primary_key_cacheEntryLocally)
qed

lemma primary_key_syncOfflineEntries:
  "primary_key (cache w) \<Longrightarrow> primary_key (cache (snd (syncOfflineEntries E w)))"
  by (simp add: syncOfflineEntries_unfold fetchSummary_cache primary_key_fetchEntries
      primary_key_sync_loop)

lemma primary_key_fresh: "primary_key (cache (fresh (SqliteCache [] 0)))"
  by (simp add: primary_key_def fresh_def)

section \<open>What the next pass selects on mobile\<close>

text \<open>
  On mobile, after one pass of the loop the unsynced rows are exactly the rows of the pass
  whose post did not succeed: a second pass retries these and no others.
\<close>

lemma sync_loop_sqlite_retries:
  assumes c: "cache w = SqliteCache t seq" and d: "distinct (map row_id t)"
  shows "unsynced (cache (sync_loop E (unsynced (cache w)) w))
       = filter (\<lambda>e. e \<notin> set (posted_ok E (calls w) (unsynced (cache w)))) (unsynced (cache w))"
proof -
  let ?ok = "posted_ok E (calls w) (unsynced (cache w))"
  let ?mark = "\<lambda>r. if row_id r \<in> entry_id ` set ?ok then r\<lparr>synced := 1\<rparr> else r"
  have inj: "inj_on row_id (set t)" using d by (simp add: distinct_map)
  have iff: "row_id r \<in> entry_id ` set ?ok \<longleftrightarrow> row_entry r \<in> set ?ok" if r: "r \<in> set t" for r
  proof
    assume "row_id r \<in> entry_id ` set ?ok"
    then obtain x where x: "x \<in> set ?ok" "entry_id x = row_id r" by auto
    then have "x \<in> set (unsynced (cache w))" using posted_ok_subset by blast
    with c obtain r' where r': "r' \<in> set t" "row_entry r' = x" by auto
    with x have "row_id r' = row_id r" by (simp add: row_id_def)
    with inj r r' have "r' = r" by (auto dest: inj_onD)
    with r' x show "row_entry r \<in> set ?ok" by simp
  next
    assume "row_entry r \<in> set ?ok"
    then show "row_id r \<in> entry_id ` set ?ok" by (auto simp: row_id_def)
  qed
  have "unsynced (cache (sync_loop E (unsynced (cache w)) w))
      = map row_entry (filter (\<lambda>r. synced r = 0) (map ?mark t))"
    using sync_loop_sqlite [OF c, of E "unsynced (cache w)"] by simp
  also have "\<dots> = map row_entry (filter (\<lambda>r. synced r = 0 \<and> row_entry r \<notin> set ?ok) t)"
    using iff by (induction t) auto
  also have "\<dots> = filter (\<lambda>e. e \<notin> set ?ok) (map row_entry (filter (\<lambda>r. synced r = 0) t))"
    by (induction t) auto
  finally show ?thesis using c by simp
qed

section \<open>The refresh at the end of \<open>syncOfflineEntries\<close>\<close>

text \<open>
  On mobile the rows left pending by the loop are still pending after the refresh when the
  list call fails, or returns no entry under the identifier of such a row.
\<close>

lemma syncOfflineEntries_sqlite_pending_kept:
  assumes c: "cache w = SqliteCache t seq"
    and r: "case api_get_entries E (calls (sync_loop E (unsynced (cache w)) w))
                   (selectedDate w) of
              Inl err \<Rightarrow> True
            | Inr data \<Rightarrow> entry_id ` set data
                \<inter> entry_id ` set (unsynced (cache (sync_loop E (unsynced (cache w)) w))) = {}"
  shows "unsynced (cache (snd (syncOfflineEntries E w)))
       = unsynced (cache (sync_loop E (unsynced (cache w)) w))"
proof -
  let ?w1 = "sync_loop E (unsynced (cache w)) w"
  have sel: "selectedDate (sync_loop E es w) = selectedDate w" for es
    by (induction es arbitrary: w)
      (simp_all add: sync_loop_Nil sync_loop_Cons sync_entry_def Let_def split: sum.splits)
  obtain t1 where c1: "cache ?w1 = SqliteCache t1 seq"
    using sync_loop_sqlite [OF c, of E "unsynced (cache w)"] by blast
  show ?thesis
  proof (cases "api_get_entries E (calls ?w1) (selectedDate w)")
    case (Inl err)
    then show ?thesis
      by (simp add: syncOfflineEntries_cache fetchEntries_cache targetDate_def sel)
  next
    case (Inr data)
    with r have "entry_id ` set data \<inter> entry_id ` set (unsynced (SqliteCache t1 seq)) = {}"
      by (simp add: c1)
    from fold_cacheEntryLocally_sqlite_pending [OF this] Inr show ?thesis
      by (simp add: syncOfflineEntries_cache fetchEntries_cache targetDate_def sel c1)
  qed
qed

text \<open>
  C8 at a failing input. The mobile cache holds three pending rows 1, 2, 3 (apple, toast,
  soup). In one \<open>syncOfflineEntries\<close> the post of the second fails; the server stores the
  other two as its entries 1 and 2, and the refresh at the end of the pass returns them.
  All three drafts are posted and, after the loop, only the toast is pending; but the
  refresh then writes the server's entry 2 over the row of the toast: when the pass
  returns no row is pending, the toast is in the cache no more and was never stored
  remotely.
\<close>

theorem syncOfflineEntries_refresh_replaces_pending:
  "unsynced (cache three_pending) = [served 1 at8 apple, served 2 at9 toast, served 3 at10 soup]
   \<and> api_post_entry small_ids [PostEntry apple] toast = Inl ServerError
   \<and> calls (snd (syncOfflineEntries small_ids three_pending))
       = [PostEntry apple, PostEntry toast, PostEntry soup, GetEntries day, GetSummary day]
   \<and> unsynced (cache (sync_loop small_ids (unsynced (cache three_pending)) three_pending))
       = [served 2 at9 toast]
   \<and> cache (snd (syncOfflineEntries small_ids three_pending))
       = SqliteCache
           [\<lparr>row_entry = served 1 at10 apple, synced = 1\<rparr>,
            \<lparr>row_entry = served 2 at10 soup, synced = 1\<rparr>,
            \<lparr>row_entry = served 3 at10 soup, synced = 1\<rparr>] 3
   \<and> unsynced (cache (snd (syncOfflineEntries small_ids three_pending))) = []"
proof -
  have loop: "cache (sync_loop small_ids (unsynced (cache three_pending)) three_pending)
      = SqliteCache
         [\<lparr>row_entry = served 1 at8 apple, synced = 1\<rparr>,
          \<lparr>row_entry = served 2 at9 toast, synced = 0\<rparr>,
          \<lparr>row_entry = served 3 at10 soup, synced = 1\<rparr>] 3"
    by (simp add: three_pending_unsynced sync_loop_def sync_entry_def Let_def)
      (simp add: three_pending_def fresh_def small_ids_def offline_def row_id_def served_def)
  have get: "api_get_entries small_ids l d = Inr [served 1 at10 apple, served 2 at10 soup]" for l d
    by (simp add: small_ids_def offline_def)
  have fail: "api_post_entry small_ids [PostEntry apple] toast = Inl ServerError"
    by (simp add: small_ids_def offline_def)
  have sel: "selectedDate (sync_loop E es w) = selectedDate w" for E es w
    by (induction es arbitrary: w)
      (simp_all add: sync_loop_Nil sync_loop_Cons sync_entry_def Let_def split: sum.splits)
  have "calls (snd (syncOfflineEntries small_ids three_pending))
      = [PostEntry (draft_of (served 1 at8 apple)), PostEntry (draft_of (served 2 at9 toast)),
         PostEntry (draft_of (served 3 at10 soup)), GetEntries day, GetSummary day]"
    by (simp add: syncOfflineEntries_unfold fetchSummary_calls fetchEntries_calls sync_loop_calls
        three_pending_unsynced sel targetDate_def fetchEntries_def Let_def split: sum.splits)
      (simp add: three_pending_def fresh_def)
  moreover have "draft_of (served i t x) = x" for i t x
    by (simp add: draft_of_def served_def)
  ultimately have log: "calls (snd (syncOfflineEntries small_ids three_pending))
      = [PostEntry apple, PostEntry toast, PostEntry soup, GetEntries day, GetSummary day]"
    by simp
  have after: "cache (snd (syncOfflineEntries small_ids three_pending))
     = SqliteCache
         [\<lparr>row_entry = served 1 at10 apple, synced = 1\<rparr>,
          \<lparr>row_entry = served 2 at10 soup, synced = 1\<rparr>,
          \<lparr>row_entry = served 3 at10 soup, synced = 1\<rparr>] 3"
    by (simp add: syncOfflineEntries_cache fetchEntries_cache get loop table_put_def row_id_def
        entry_id_served)
      (simp add: sql_values_def or_null_def served_def apple_def soup_def)
  from loop after log fail three_pending_unsynced show ?thesis by simp
qed

text \<open>
  On web, with three cached entries of small identifiers and the second post failing, the
  two posted entries are replaced by the entries the server returned, and all three are
  selected again by the next pass.
\<close>

lemma sync_loop_web_posted_stay_selected:
  "unsynced (cache web_three) = [served 1 at8 apple, served 2 at9 toast, served 3 at10 soup]
   \<and> unsynced (cache (sync_loop second_fails (unsynced (cache web_three)) web_three))
       = [served 500 at10 apple, served 2 at9 toast, served 502 at10 soup]"
proof -
  have u: "unsynced (cache web_three)
      = [served 1 at8 apple, served 2 at9 toast, served 3 at10 soup]"
    by (simp add: web_three_def fresh_def entry_id_served)
  have "cache (sync_loop second_fails (unsynced (cache web_three)) web_three)
      = WebCache [served 500 at10 apple, served 2 at9 toast, served 502 at10 soup]"
    by (simp add: u sync_loop_def sync_entry_def Let_def)
      (simp add: web_three_def fresh_def second_fails_def recovered_def offline_def
        served_def draft_of_def)
  with u show ?thesis by (simp add: entry_id_served)
qed

end
